theory Spec2Isabelle
  imports Main "HOL-Library.Multiset" "HOL-Library.Sublist"
begin

section \<open>Data model (main.go, schema.sql)\<close>

text \<open>
  \<^verbatim>\<open>type Player struct { ID string; Rating int }\<close> and
  \<^verbatim>\<open>type SessionResult struct { SessionID string; Player1 Player; Player2 Player }\<close>.
  The rating is never computed with, so it is an unbounded integer here.
\<close>

record Player =
  ID :: string
  Rating :: int

record SessionResult =
  SessionID :: string
  Player1 :: Player
  Player2 :: Player

text \<open>
  The two tables of the schema. \<open>waiting_since\<close> and \<open>start_time\<close> are DATETIME values
  filled by \<open>NOW()\<close>; they are numbers here, supplied by the environment of each statement.
  A table is the list of its rows in storage order; \<open>player_id\<close> and \<open>session_id\<close> are the
  primary keys, compared as plain strings.
\<close>

record queue_row =
  player_id :: string
  rating :: int
  waiting_since :: nat

record session_row =
  session_id :: string
  player1_id :: string
  player2_id :: string
  start_time :: nat

record database =
  matchmaking_queue :: "queue_row list"
  sessions :: "session_row list"

text \<open>
  A statement fails either because it violates a primary key or for any other reason
  (connection lost, lock wait timeout, value out of range, ...). The second kind is not
  decided by the program: each operation takes it as a flag of its environment.
\<close>

datatype db_error = DuplicateEntry | StorageFailure

section \<open>Storage operations\<close>

text \<open>\<^verbatim>\<open>INSERT INTO matchmaking_queue (player_id, rating, waiting_since) VALUES (?, ?, NOW())\<close>\<close>

definition insertWaitingPlayer :: "bool \<Rightarrow> nat \<Rightarrow> Player \<Rightarrow> database \<Rightarrow> db_error + database" where
  "insertWaitingPlayer fails now p d =
     (if fails then Inl StorageFailure
      else if ID p \<in> set (map player_id (matchmaking_queue d)) then Inl DuplicateEntry
      else Inr (d\<lparr>matchmaking_queue := matchmaking_queue d @
                  [\<lparr>player_id = ID p, rating = Rating p, waiting_since = now\<rparr>]\<rparr>))"

text \<open>\<^verbatim>\<open>DELETE FROM matchmaking_queue WHERE player_id = ?\<close>\<close>

definition deleteWaitingPlayer :: "bool \<Rightarrow> string \<Rightarrow> database \<Rightarrow> db_error + database" where
  "deleteWaitingPlayer fails playerID d =
     (if fails then Inl StorageFailure
      else Inr (d\<lparr>matchmaking_queue := filter (\<lambda>r. player_id r \<noteq> playerID) (matchmaking_queue d)\<rparr>))"

text \<open>
  \<^verbatim>\<open>SELECT player_id, rating FROM matchmaking_queue ORDER BY waiting_since ASC FOR UPDATE\<close>.
  The order of rows with equal \<open>waiting_since\<close> is the server's choice, so the answer of the
  query is an input: \<open>snapshotOrdered q rows\<close> says that \<open>rows\<close> is a result set the server
  may give on the table \<open>q\<close>.
\<close>

definition snapshotOrdered :: "queue_row list \<Rightarrow> queue_row list \<Rightarrow> bool" where
  "snapshotOrdered q rows \<longleftrightarrow> mset rows = mset q \<and> sorted (map waiting_since rows)"

definition scanPlayer :: "queue_row \<Rightarrow> Player" where
  "scanPlayer r = \<lparr>ID = player_id r, Rating = rating r\<rparr>"

text \<open>
  The loop \<^verbatim>\<open>for rows.Next() { ...; players = append(players, p) }\<close>. \<open>rows.Next()\<close> returns
  false at the end of the result set, and also when fetching the next row fails; the
  code does not look at \<open>rows.Err()\<close>, so it cannot tell the two apart. \<open>n\<close> is the number
  of rows the environment lets \<open>rows.Next()\<close> deliver before a failure: the loop ends
  after \<open>n\<close> rows or at the end of the result set, whichever comes first, and returns the
  players read so far.
\<close>

fun rowsLoop :: "nat \<Rightarrow> queue_row list \<Rightarrow> Player list \<Rightarrow> Player list" where
  "rowsLoop 0 rows players = players"
| "rowsLoop (Suc n) [] players = players"
| "rowsLoop (Suc n) (r # rows) players = rowsLoop n rows (players @ [scanPlayer r])"

text \<open>
  \<open>getWaitingPlayers\<close>: an error of \<open>tx.Query\<close> or of a \<open>rows.Scan\<close> is passed on (the
  answer \<open>Inl\<close>); otherwise the players the loop has read are returned without error.
\<close>

definition getWaitingPlayers :: "db_error + queue_row list \<Rightarrow> nat \<Rightarrow> db_error + Player list" where
  "getWaitingPlayers answer n =
     (case answer of Inl e \<Rightarrow> Inl e | Inr rows \<Rightarrow> Inr (rowsLoop n rows []))"

text \<open>
  \<^verbatim>\<open>INSERT INTO sessions (session_id, player1_id, player2_id, start_time) VALUES (?, ?, ?, NOW())\<close>,
  executed on \<^verbatim>\<open>db\<close>, not on the transaction.
\<close>

definition insertSession :: "bool \<Rightarrow> nat \<Rightarrow> SessionResult \<Rightarrow> database \<Rightarrow> db_error + database" where
  "insertSession fails now session d =
     (if fails then Inl StorageFailure
      else if SessionID session \<in> set (map session_id (sessions d)) then Inl DuplicateEntry
      else Inr (d\<lparr>sessions := sessions d @
                  [\<lparr>session_id = SessionID session, player1_id = ID (Player1 session),
                    player2_id = ID (Player2 session), start_time = now\<rparr>]\<rparr>))"

section \<open>Session factory\<close>

text \<open>\<^verbatim>\<open>fmt.Sprintf("session-%d", time.Now().UnixNano())\<close>: the clock value in decimal.\<close>

fun decimal :: "nat \<Rightarrow> string" where
  "decimal n = (if n < 10 then [''0123456789'' ! n]
                else decimal (n div 10) @ [''0123456789'' ! (n mod 10)])"

declare decimal.simps [simp del]

definition sprintf_d :: "int \<Rightarrow> string" where
  "sprintf_d i = (if i < 0 then CHR ''-'' # decimal (nat (- i)) else decimal (nat i))"

definition createSession :: "int \<Rightarrow> Player \<Rightarrow> Player \<Rightarrow> SessionResult" where
  "createSession unixNano p1 p2 =
     \<lparr>SessionID = ''session-'' @ sprintf_d unixNano, Player1 = p1, Player2 = p2\<rparr>"

section \<open>One tick of the matching processor: the database part\<close>

text \<open>
  What the environment decides during one pass of the loop body: whether \<open>db.Begin\<close>
  fails, the answer of the snapshot query (its result set, or an error), how many rows
  of the result set \<open>rows.Next()\<close> delivers before a failure, the clock read by
  \<open>createSession\<close>, whether the DELETE, the session INSERT and the commit fail, and the
  server's \<open>NOW()\<close>.
\<close>

record tick_env =
  begin_fails :: bool
  query_answer :: "db_error + queue_row list"
  rows_read :: nat
  clock_nano :: int
  delete_fails :: bool
  insert_fails :: bool
  db_now :: nat
  commit_fails :: bool

text \<open>
  The result set of the snapshot query, when there is one, is an ordered snapshot of the
  queue. How many of its rows are delivered is not constrained.
\<close>

definition env_ok :: "tick_env \<Rightarrow> database \<Rightarrow> bool" where
  "env_ok env d \<longleftrightarrow>
     (case query_answer env of Inl e \<Rightarrow> True | Inr rows \<Rightarrow> snapshotOrdered (matchmaking_queue d) rows)"

datatype tick_outcome =
    BeginFailed
  | QueryFailed
  | TooFew
  | DeleteFailed SessionResult
  | InsertFailed SessionResult
  | CommitFailed SessionResult
  | Matched SessionResult

fun outcome_session :: "tick_outcome \<Rightarrow> SessionResult option" where
  "outcome_session BeginFailed = None"
| "outcome_session QueryFailed = None"
| "outcome_session TooFew = None"
| "outcome_session (DeleteFailed s) = Some s"
| "outcome_session (InsertFailed s) = Some s"
| "outcome_session (CommitFailed s) = Some s"
| "outcome_session (Matched s) = Some s"

text \<open>
  \<^verbatim>\<open>DELETE FROM matchmaking_queue WHERE player_id IN (?, ?)\<close> inside the transaction: the
  result is the transaction's own view of the queue, which becomes durable at commit and
  is dropped at rollback.
\<close>

definition txDeletePair :: "bool \<Rightarrow> string \<Rightarrow> string \<Rightarrow> queue_row list \<Rightarrow> db_error + queue_row list" where
  "txDeletePair fails id1 id2 q =
     (if fails then Inl StorageFailure
      else Inr (filter (\<lambda>r. player_id r \<noteq> id1 \<and> player_id r \<noteq> id2) q))"

text \<open>
  The loop body of \<open>matchmakingProcessor\<close> up to the commit. The durable database is
  \<open>d\<close>; the transaction's pending deletion is \<open>txq\<close>. \<open>insertSession\<close> runs on the
  connection pool, outside the transaction, so its row is durable as soon as it succeeds.
\<close>

definition tick_db :: "tick_env \<Rightarrow> database \<Rightarrow> database \<times> tick_outcome" where
  "tick_db env d =
     (if begin_fails env then (d, BeginFailed)
      else case getWaitingPlayers (query_answer env) (rows_read env) of
        Inl e \<Rightarrow> (d, QueryFailed)
      | Inr players \<Rightarrow>
          if length players \<ge> 2 then
            (let p1 = players ! 0;
                 p2 = players ! 1;
                 session = createSession (clock_nano env) p1 p2
             in case txDeletePair (delete_fails env) (ID p1) (ID p2) (matchmaking_queue d) of
                  Inl e \<Rightarrow> (d, DeleteFailed session)
                | Inr txq \<Rightarrow>
                    (case insertSession (insert_fails env) (db_now env) session d of
                       Inl e \<Rightarrow> (d, InsertFailed session)
                     | Inr d1 \<Rightarrow>
                         if commit_fails env then (d1, CommitFailed session)
                         else (d1\<lparr>matchmaking_queue := txq\<rparr>, Matched session)))
          else (d, TooFew))"

section \<open>Waiter registry and channels\<close>

text \<open>
  The process state: the database behind the global \<open>db\<close>, the global map
  \<open>waitingChans\<close> from player id to channel, and the channels themselves. A channel is a
  reference (a number) into \<open>chan_buf\<close>, which holds each channel's buffered values;
  \<open>next_chan\<close> is the next unused reference, so that \<^verbatim>\<open>make(chan SessionResult, 1)\<close>
  returns a channel no one else holds.
\<close>

record server =
  store :: database
  waitingChans :: "string \<rightharpoonup> nat"
  chan_buf :: "nat \<Rightarrow> SessionResult list"
  next_chan :: nat

text \<open>
  \<^verbatim>\<open>ch <- session\<close> on a channel of capacity one: the value is buffered if the buffer has
  room; otherwise the sender cannot proceed, which is \<open>None\<close>.
\<close>

definition chan_send :: "nat \<Rightarrow> SessionResult \<Rightarrow> (nat \<Rightarrow> SessionResult list) \<Rightarrow> (nat \<Rightarrow> SessionResult list) option" where
  "chan_send ch s bufs = (if length (bufs ch) < 1 then Some (bufs(ch := bufs ch @ [s])) else None)"

text \<open>
  \<^verbatim>\<open>matchChan := make(chan SessionResult, 1); waitingChans[player.ID] = matchChan\<close>
  (under the mutex).
\<close>

definition registerChan :: "string \<Rightarrow> server \<Rightarrow> server \<times> nat" where
  "registerChan playerID st =
     (st\<lparr>waitingChans := (waitingChans st)(playerID \<mapsto> next_chan st),
         chan_buf := (chan_buf st)(next_chan st := []),
         next_chan := Suc (next_chan st)\<rparr>,
      next_chan st)"

text \<open>\<^verbatim>\<open>delete(waitingChans, player.ID)\<close> (under the mutex).\<close>

definition unregisterChan :: "string \<Rightarrow> server \<Rightarrow> server" where
  "unregisterChan playerID st = st\<lparr>waitingChans := (waitingChans st)(playerID := None)\<rparr>"

text \<open>
  \<^verbatim>\<open>if ch, ok := waitingChans[id]; ok { ch <- session; delete(waitingChans, id) }\<close>.
  The boolean is \<open>ok\<close>; \<open>None\<close> is a send that cannot proceed.
\<close>

definition deliver :: "string \<Rightarrow> SessionResult \<Rightarrow> server \<Rightarrow> (server \<times> bool) option" where
  "deliver playerID session st =
     (case waitingChans st playerID of
        None \<Rightarrow> Some (st, False)
      | Some ch \<Rightarrow>
          (case chan_send ch session (chan_buf st) of
             None \<Rightarrow> None
           | Some bufs \<Rightarrow>
               Some (st\<lparr>chan_buf := bufs, waitingChans := (waitingChans st)(playerID := None)\<rparr>, True)))"

section \<open>One tick of the matching processor\<close>

text \<open>
  The whole loop body: the database part, and after a successful commit the two
  deliveries (under the mutex).
\<close>

definition matchmakingProcessor_tick :: "tick_env \<Rightarrow> server \<Rightarrow> (server \<times> tick_outcome) option" where
  "matchmakingProcessor_tick env st =
     (let (d, out) = tick_db env (store st);
          st0 = st\<lparr>store := d\<rparr>
      in case out of
           Matched session \<Rightarrow>
             (case deliver (ID (Player1 session)) session st0 of
                None \<Rightarrow> None
              | Some (st1, ok1) \<Rightarrow>
                  (case deliver (ID (Player2 session)) session st1 of
                     None \<Rightarrow> None
                   | Some (st2, ok2) \<Rightarrow> Some (st2, out)))
         | _ \<Rightarrow> Some (st0, out))"

section \<open>The request handler\<close>

text \<open>
  What the handler writes to the client: the session as JSON (status 200), or
  \<^verbatim>\<open>http.Error(w, message, status)\<close>.
\<close>

datatype response = SessionJSON SessionResult | HttpError nat string

text \<open>
  Where one request stands: blocked in the \<open>select\<close> on its channel, past the \<open>select\<close>
  on the timeout case, or answered.
\<close>

datatype handler_pc = Waiting nat | TimedOut | Done response

text \<open>
  From the decoding of the body to the registration of the channel. \<open>body\<close> is the
  decoded player, \<open>None\<close> when decoding fails.
\<close>

definition matchmakingHandler_register :: "Player option \<Rightarrow> bool \<Rightarrow> nat \<Rightarrow> server \<Rightarrow> server \<times> handler_pc" where
  "matchmakingHandler_register body fails now st =
     (case body of
        None \<Rightarrow> (st, Done (HttpError 400 ''Invalid request''))
      | Some player \<Rightarrow>
          (case insertWaitingPlayer fails now player (store st) of
             Inl e \<Rightarrow> (st, Done (HttpError 500 ''Failed to register waiting player''))
           | Inr d \<Rightarrow>
               (let (st', matchChan) = registerChan (ID player) (st\<lparr>store := d\<rparr>)
                in (st', Waiting matchChan))))"

text \<open>
  The \<open>select\<close> between the channel and \<^verbatim>\<open>time.After(30 * time.Second)\<close>. Whether the
  timer has fired is the environment's; when both cases are ready the runtime picks one,
  \<open>pick_timer\<close> saying which. With neither ready the handler stays blocked.
\<close>

definition matchmakingHandler_select :: "bool \<Rightarrow> bool \<Rightarrow> nat \<Rightarrow> server \<Rightarrow> server \<times> handler_pc" where
  "matchmakingHandler_select timer_fired pick_timer matchChan st =
     (case chan_buf st matchChan of
        [] \<Rightarrow> if timer_fired then (st, TimedOut) else (st, Waiting matchChan)
      | session # rest \<Rightarrow>
          if timer_fired \<and> pick_timer then (st, TimedOut)
          else (st\<lparr>chan_buf := (chan_buf st)(matchChan := rest)\<rparr>, Done (SessionJSON session)))"

text \<open>
  The timeout case: the channel is removed from the map, the queue row is deleted (a
  failure is logged only), and the timeout is reported.
\<close>

definition matchmakingHandler_timeout :: "bool \<Rightarrow> string \<Rightarrow> server \<Rightarrow> server \<times> handler_pc" where
  "matchmakingHandler_timeout fails playerID st =
     (let st1 = unregisterChan playerID st;
          st2 = (case deleteWaitingPlayer fails playerID (store st1) of
                   Inl e \<Rightarrow> st1
                 | Inr d \<Rightarrow> st1\<lparr>store := d\<rparr>)
      in (st2, Done (HttpError 504 ''No opponent found within timeout'')))"

section \<open>Reachable states\<close>

text \<open>
  The states the process can be in, over its atomic actions: a statement on the
  database, a critical section on the map, a receive on a channel, the database part of
  a tick, and a restart of the process (the database stays, the memory is lost). The
  service starts on the empty tables of the schema. Each action is allowed with any
  argument, so every interleaving of handlers and ticks is covered.
\<close>

definition initial :: server where
  "initial = \<lparr>store = \<lparr>matchmaking_queue = [], sessions = []\<rparr>,
              waitingChans = Map.empty, chan_buf = (\<lambda>ch. []), next_chan = 0\<rparr>"

inductive reachable :: "server \<Rightarrow> bool" where
  start: "reachable initial"
| restart: "reachable st \<Longrightarrow>
     reachable (st\<lparr>waitingChans := Map.empty, chan_buf := (\<lambda>ch. []), next_chan := 0\<rparr>)"
| insert: "reachable st \<Longrightarrow> insertWaitingPlayer fails now p (store st) = Inr d \<Longrightarrow>
     reachable (st\<lparr>store := d\<rparr>)"
| delete: "reachable st \<Longrightarrow> deleteWaitingPlayer fails playerID (store st) = Inr d \<Longrightarrow>
     reachable (st\<lparr>store := d\<rparr>)"
| register: "reachable st \<Longrightarrow> reachable (fst (registerChan playerID st))"
| unregister: "reachable st \<Longrightarrow> reachable (unregisterChan playerID st)"
| receive: "reachable st \<Longrightarrow> chan_buf st ch = session # rest \<Longrightarrow>
     reachable (st\<lparr>chan_buf := (chan_buf st)(ch := rest)\<rparr>)"
| tick: "reachable st \<Longrightarrow> env_ok env (store st) \<Longrightarrow>
     reachable (st\<lparr>store := fst (tick_db env (store st))\<rparr>)"
| deliver: "reachable st \<Longrightarrow> deliver playerID session st = Some (st', ok) \<Longrightarrow> reachable st'"

section \<open>Invariants\<close>

text \<open>
  The primary key of the queue: one row per player id. Every stored session has two
  different player ids. Every channel in the map is one that \<open>make\<close> has returned, is
  empty, and is held under one id only.
\<close>

definition queue_inv :: "database \<Rightarrow> bool" where
  "queue_inv d \<longleftrightarrow> distinct (map player_id (matchmaking_queue d))"

definition sessions_inv :: "database \<Rightarrow> bool" where
  "sessions_inv d \<longleftrightarrow> (\<forall>s \<in> set (sessions d). player1_id s \<noteq> player2_id s)"

definition registry_inv :: "server \<Rightarrow> bool" where
  "registry_inv st \<longleftrightarrow>
     (\<forall>p ch. waitingChans st p = Some ch \<longrightarrow> ch < next_chan st \<and> chan_buf st ch = []) \<and>
     (\<forall>p p' ch. waitingChans st p = Some ch \<and> waitingChans st p' = Some ch \<longrightarrow> p = p')"

section \<open>Arrival order and the pair of a tick\<close>

text \<open>
  Two queue tables agree on arrivals when they hold, row by row, the same player ids and
  enqueue times; the ratings may differ. \<open>paired_ids\<close> is the pair of player ids a tick has
  selected, if it has selected one.
\<close>

definition arrival :: "queue_row \<Rightarrow> string \<times> nat" where
  "arrival r = (player_id r, waiting_since r)"

definition same_arrivals :: "queue_row list \<Rightarrow> queue_row list \<Rightarrow> bool" where
  "same_arrivals q q' \<longleftrightarrow> map arrival q = map arrival q'"

definition paired_ids :: "tick_outcome \<Rightarrow> (string \<times> string) option" where
  "paired_ids out = map_option (\<lambda>s. (ID (Player1 s), ID (Player2 s))) (outcome_session out)"

section \<open>Example data\<close>

text \<open>
  Four players and their queue rows, and the environment of a tick in which every
  statement succeeds and every row is delivered: \<open>rows\<close> is the result set of the
  snapshot query, \<open>nano\<close> the clock, \<open>now\<close> the server's time, \<open>cf\<close> whether the commit
  fails.
\<close>

abbreviation (input) row_a :: queue_row where
  "row_a \<equiv> \<lparr>player_id = ''a1'', rating = 1000, waiting_since = 5\<rparr>"

abbreviation (input) row_b :: queue_row where
  "row_b \<equiv> \<lparr>player_id = ''b1'', rating = 1200, waiting_since = 34\<rparr>"

abbreviation (input) row_c :: queue_row where
  "row_c \<equiv> \<lparr>player_id = ''c1'', rating = 900, waiting_since = 41\<rparr>"

abbreviation (input) row_d :: queue_row where
  "row_d \<equiv> \<lparr>player_id = ''d1'', rating = 1100, waiting_since = 43\<rparr>"

text \<open>Three rows with the same enqueue time, of any rating.\<close>

abbreviation (input) tie_a :: "int \<Rightarrow> queue_row" where
  "tie_a x \<equiv> \<lparr>player_id = ''a1'', rating = x, waiting_since = 7\<rparr>"

abbreviation (input) tie_b :: "int \<Rightarrow> queue_row" where
  "tie_b x \<equiv> \<lparr>player_id = ''b1'', rating = x, waiting_since = 7\<rparr>"

abbreviation (input) tie_c :: "int \<Rightarrow> queue_row" where
  "tie_c x \<equiv> \<lparr>player_id = ''c1'', rating = x, waiting_since = 7\<rparr>"

abbreviation (input) player_a :: Player where
  "player_a \<equiv> \<lparr>ID = ''a1'', Rating = 1000\<rparr>"

abbreviation (input) player_b :: Player where
  "player_b \<equiv> \<lparr>ID = ''b1'', Rating = 1200\<rparr>"

abbreviation (input) player_c :: Player where
  "player_c \<equiv> \<lparr>ID = ''c1'', Rating = 900\<rparr>"

abbreviation (input) env_commit :: "queue_row list \<Rightarrow> int \<Rightarrow> nat \<Rightarrow> bool \<Rightarrow> tick_env" where
  "env_commit rows nano now cf \<equiv>
     \<lparr>begin_fails = False, query_answer = Inr rows, rows_read = length rows,
      clock_nano = nano, delete_fails = False,
      insert_fails = False, db_now = now, commit_fails = cf\<rparr>"

abbreviation (input) session_ab :: SessionResult where
  "session_ab \<equiv> \<lparr>SessionID = ''session-1'', Player1 = player_a, Player2 = player_b\<rparr>"

text \<open>
  A run of the service: \<open>a1\<close> registers at time 5 (\<open>st_a\<close>), \<open>b1\<close> at time 34 (\<open>st_ab\<close>);
  a tick at time 35 commits their match (\<open>st_gap\<close>) and delivers it (\<open>st_matched\<close>);
  then \<open>a1\<close> registers again at time 40 and \<open>c1\<close> at time 41 (\<open>st_again\<close>).
\<close>

definition st_a :: server where
  "st_a = fst (matchmakingHandler_register (Some player_a) False 5 initial)"

definition st_ab :: server where
  "st_ab = fst (matchmakingHandler_register (Some player_b) False 34 st_a)"

definition st_gap :: server where
  "st_gap = st_ab\<lparr>store := fst (tick_db (env_commit [row_a, row_b] 1 35 False) (store st_ab))\<rparr>"

definition st_matched :: server where
  "st_matched = fst (the (matchmakingProcessor_tick (env_commit [row_a, row_b] 1 35 False) st_ab))"

definition st_again :: server where
  "st_again = fst (matchmakingHandler_register (Some player_c) False 41
                 (fst (matchmakingHandler_register (Some player_a) False 40 st_matched)))"

section \<open>The players read by a tick\<close>

lemma rowsLoop_eq: "rowsLoop n rows players = players @ map scanPlayer (take n rows)"
  by (induction n rows players rule: rowsLoop.induct) simp_all

lemma getWaitingPlayers_eq:
  "getWaitingPlayers answer n =
     (case answer of Inl e \<Rightarrow> Inl e | Inr rows \<Rightarrow> Inr (map scanPlayer (take n rows)))"
  by (simp add: getWaitingPlayers_def rowsLoop_eq split: sum.splits)

section \<open>Preservation of the invariants\<close>

lemma snapshot_distinct:
  assumes "snapshotOrdered q rows" and "distinct (map player_id q)"
  shows "distinct (map player_id rows)"
proof -
  from assms(1) have "mset (map player_id rows) = mset (map player_id q)"
    by (simp add: snapshotOrdered_def)
  then show ?thesis using assms(2) by (metis mset_eq_imp_distinct_iff)
qed

lemma tick_db_queue_inv:
  "queue_inv d \<Longrightarrow> queue_inv (fst (tick_db env d))"
  by (auto simp: queue_inv_def tick_db_def Let_def txDeletePair_def insertSession_def
      getWaitingPlayers_eq distinct_map_filter split: sum.splits if_splits)

lemma tick_db_sessions_inv:
  assumes "env_ok env d" and "queue_inv d" and "sessions_inv d"
  shows "sessions_inv (fst (tick_db env d))"
proof (cases "query_answer env")
  case (Inl e)
  then show ?thesis using assms(3) by (simp add: tick_db_def getWaitingPlayers_eq)
next
  case (Inr rows)
  with assms(1,2) have d: "distinct (map player_id rows)"
    by (auto simp: env_ok_def queue_inv_def intro: snapshot_distinct)
  show ?thesis
  proof (cases "2 \<le> length rows")
    case True
    then obtain r1 r2 rest where rows: "rows = r1 # r2 # rest"
      by (cases rows; cases "tl rows") auto
    with d have "player_id r1 \<noteq> player_id r2" by simp
    with rows Inr assms(3) show ?thesis
      by (auto simp: sessions_inv_def tick_db_def Let_def txDeletePair_def insertSession_def
          getWaitingPlayers_eq createSession_def scanPlayer_def split: if_splits)
  next
    case False
    with Inr assms(3) show ?thesis by (simp add: tick_db_def getWaitingPlayers_eq)
  qed
qed

lemma reachable_db_inv: "reachable st \<Longrightarrow> queue_inv (store st) \<and> sessions_inv (store st)"
proof (induction rule: reachable.induct)
  case start
  show ?case by (simp add: initial_def queue_inv_def sessions_inv_def)
next
  case (insert st fails now p d)
  then show ?case
    by (auto simp: insertWaitingPlayer_def queue_inv_def sessions_inv_def split: if_splits)
next
  case (delete st fails playerID d)
  then show ?case
    by (auto simp: deleteWaitingPlayer_def queue_inv_def sessions_inv_def distinct_map_filter
        split: if_splits)
next
  case (tick st env)
  then show ?case by (simp add: tick_db_queue_inv tick_db_sessions_inv)
next
  case (deliver st playerID session st' ok)
  then show ?case by (auto simp: deliver_def chan_send_def split: option.splits if_splits)
qed (simp_all add: registerChan_def unregisterChan_def)

lemma deliver_registry_inv:
  assumes "registry_inv st"
  shows "deliver playerID session st =
           (case waitingChans st playerID of
              None \<Rightarrow> Some (st, False)
            | Some ch \<Rightarrow> Some (st\<lparr>chan_buf := (chan_buf st)(ch := [session]),
                                waitingChans := (waitingChans st)(playerID := None)\<rparr>, True))"
  using assms by (auto simp: deliver_def chan_send_def registry_inv_def split: option.splits)

lemma deliver_preserves_registry_inv:
  assumes "registry_inv st" and "deliver playerID session st = Some (st', ok)"
  shows "registry_inv st'"
proof (cases "waitingChans st playerID")
  case None
  with assms show ?thesis by (simp add: deliver_def)
next
  case (Some ch)
  with assms have st': "st' = st\<lparr>chan_buf := (chan_buf st)(ch := [session]),
                                waitingChans := (waitingChans st)(playerID := None)\<rparr>"
    by (simp add: deliver_registry_inv)
  show ?thesis
    unfolding registry_inv_def
  proof (rule conjI; intro allI impI)
    fix p c assume h: "waitingChans st' p = Some c"
    then have p: "p \<noteq> playerID" and w: "waitingChans st p = Some c"
      by (auto simp: st' split: if_splits)
    with Some assms(1) have "c \<noteq> ch" unfolding registry_inv_def by blast
    with w assms(1) show "c < next_chan st' \<and> chan_buf st' c = []"
      by (auto simp: st' registry_inv_def)
  next
    fix p p' c assume "waitingChans st' p = Some c \<and> waitingChans st' p' = Some c"
    then have "waitingChans st p = Some c \<and> waitingChans st p' = Some c"
      by (auto simp: st' split: if_splits)
    with assms(1) show "p = p'" unfolding registry_inv_def by blast
  qed
qed

lemma register_preserves_registry_inv:
  assumes "registry_inv st"
  shows "registry_inv (fst (registerChan playerID st))"
  unfolding registry_inv_def
proof (rule conjI; intro allI impI)
  fix p c assume "waitingChans (fst (registerChan playerID st)) p = Some c"
  with assms show "c < next_chan (fst (registerChan playerID st)) \<and>
                   chan_buf (fst (registerChan playerID st)) c = []"
    by (auto simp: registerChan_def registry_inv_def less_Suc_eq split: if_splits)
next
  fix p p' c
  assume "waitingChans (fst (registerChan playerID st)) p = Some c \<and>
          waitingChans (fst (registerChan playerID st)) p' = Some c"
  with assms show "p = p'"
    by (fastforce simp: registerChan_def registry_inv_def split: if_splits)
qed

lemma reachable_registry_inv: "reachable st \<Longrightarrow> registry_inv st"
proof (induction rule: reachable.induct)
  case start
  show ?case by (simp add: initial_def registry_inv_def)
next
  case (restart st)
  show ?case by (simp add: registry_inv_def)
next
  case (register st playerID)
  then show ?case by (simp add: register_preserves_registry_inv)
next
  case (unregister st playerID)
  then show ?case by (auto simp: unregisterChan_def registry_inv_def split: if_splits)
next
  case (receive st ch session rest)
  then show ?case by (auto simp: registry_inv_def)
next
  case (deliver st playerID session st' ok)
  then show ?case by (simp add: deliver_preserves_registry_inv)
qed (simp_all add: registry_inv_def)

section \<open>Atomicity of a tick\<close>

text \<open>
  A tick whose DELETE or session INSERT fails leaves the database as it was: the
  transaction is rolled back and no session row has been written.
\<close>

lemma tick_db_rollback:
  "delete_fails env \<or> insert_fails env \<Longrightarrow> fst (tick_db env d) = d"
  by (auto simp: tick_db_def Let_def txDeletePair_def insertSession_def split: sum.splits)

text \<open>
  C1. The removal of the pair from the queue and the storing of the session are meant to
  be one transaction, so that a tick that fails changes nothing durable. The code misses
  this: the session is inserted outside the transaction. With players \<open>a1\<close> and \<open>b1\<close>
  waiting and every statement succeeding, a failing commit leaves both queue rows in
  place and the session row stored.
\<close>

theorem tick_db_commit_failure_keeps_session:
  "env_ok (env_commit [row_a, row_b] 1 35 True) \<lparr>matchmaking_queue = [row_a, row_b], sessions = []\<rparr> \<and>
   tick_db (env_commit [row_a, row_b] 1 35 True) \<lparr>matchmaking_queue = [row_a, row_b], sessions = []\<rparr>
   = (\<lparr>matchmaking_queue = [row_a, row_b],
       sessions = [\<lparr>session_id = ''session-1'', player1_id = ''a1'', player2_id = ''b1'',
                    start_time = 35\<rparr>]\<rparr>,
      CommitFailed \<lparr>SessionID = ''session-1'', Player1 = player_a, Player2 = player_b\<rparr>)"
  by (simp add: env_ok_def snapshotOrdered_def tick_db_def getWaitingPlayers_eq scanPlayer_def
      createSession_def txDeletePair_def insertSession_def sprintf_d_def decimal.simps)

section \<open>Reachability of the handler and the tick\<close>

text \<open>The definitions unfolded to run the model on concrete states.\<close>

lemmas eval_defs =
  matchmakingHandler_register_def matchmakingHandler_select_def matchmakingHandler_timeout_def
  matchmakingProcessor_tick_def tick_db_def insertWaitingPlayer_def deleteWaitingPlayer_def
  getWaitingPlayers_eq scanPlayer_def createSession_def txDeletePair_def insertSession_def
  sprintf_d_def decimal.simps deliver_def chan_send_def registerChan_def unregisterChan_def
  initial_def env_ok_def snapshotOrdered_def

lemma reachable_handler_register:
  assumes "reachable st"
  shows "reachable (fst (matchmakingHandler_register body fails now st))"
proof (cases body)
  case None
  with assms show ?thesis by (simp add: matchmakingHandler_register_def)
next
  case (Some player)
  show ?thesis
  proof (cases "insertWaitingPlayer fails now player (store st)")
    case (Inl e)
    with Some assms show ?thesis by (simp add: matchmakingHandler_register_def)
  next
    case (Inr d)
    from assms Inr have "reachable (st\<lparr>store := d\<rparr>)" by (rule reachable.insert)
    then have "reachable (fst (registerChan (ID player) (st\<lparr>store := d\<rparr>)))"
      by (rule reachable.register)
    with Some Inr show ?thesis
      by (simp add: matchmakingHandler_register_def split_beta)
  qed
qed

lemma reachable_handler_select:
  assumes "reachable st"
  shows "reachable (fst (matchmakingHandler_select timer_fired pick_timer ch st))"
proof (cases "chan_buf st ch")
  case Nil
  with assms show ?thesis by (simp add: matchmakingHandler_select_def)
next
  case (Cons session rest)
  from assms Cons have "reachable (st\<lparr>chan_buf := (chan_buf st)(ch := rest)\<rparr>)"
    by (rule reachable.receive)
  with assms Cons show ?thesis by (simp add: matchmakingHandler_select_def)
qed

lemma reachable_handler_timeout:
  assumes "reachable st"
  shows "reachable (fst (matchmakingHandler_timeout fails playerID st))"
proof -
  from assms have u: "reachable (unregisterChan playerID st)" by (rule reachable.unregister)
  show ?thesis
  proof (cases "deleteWaitingPlayer fails playerID (store (unregisterChan playerID st))")
    case (Inl e)
    with u show ?thesis by (simp add: matchmakingHandler_timeout_def Let_def)
  next
    case (Inr d)
    from u Inr have "reachable ((unregisterChan playerID st)\<lparr>store := d\<rparr>)"
      by (rule reachable.delete)
    with Inr show ?thesis by (simp add: matchmakingHandler_timeout_def Let_def)
  qed
qed

lemma reachable_tick:
  assumes "reachable st" and "env_ok env (store st)"
    and "matchmakingProcessor_tick env st = Some (st', out)"
  shows "reachable st'"
proof -
  from assms(1,2) have r0: "reachable (st\<lparr>store := fst (tick_db env (store st))\<rparr>)"
    by (rule reachable.tick)
  show ?thesis
  proof (cases "snd (tick_db env (store st))")
    case (Matched session)
    with assms(3) obtain st1 ok1 ok2 where
      d1: "deliver (ID (Player1 session)) session (st\<lparr>store := fst (tick_db env (store st))\<rparr>) = Some (st1, ok1)"
      and d2: "deliver (ID (Player2 session)) session st1 = Some (st', ok2)"
      by (auto simp: matchmakingProcessor_tick_def Let_def split: prod.splits option.splits)
    from r0 d1 have "reachable st1" by (rule reachable.deliver)
    then show ?thesis using d2 by (rule reachable.deliver)
  qed (use assms(3) r0 in \<open>auto simp: matchmakingProcessor_tick_def Let_def split: prod.splits\<close>)
qed

lemma deliver_total:
  assumes "registry_inv st"
  shows "\<exists>st' ok. deliver playerID session st = Some (st', ok)"
  using assms by (cases "waitingChans st playerID") (auto simp: deliver_registry_inv)

lemma tick_never_blocks:
  assumes inv: "registry_inv st"
  shows "matchmakingProcessor_tick env st \<noteq> None"
proof (cases "snd (tick_db env (store st))")
  case (Matched s)
  let ?st0 = "st\<lparr>store := fst (tick_db env (store st))\<rparr>"
  from inv have inv0: "registry_inv ?st0" by (simp add: registry_inv_def)
  then obtain st1 ok1 where d1: "deliver (ID (Player1 s)) s ?st0 = Some (st1, ok1)"
    using deliver_total by blast
  with inv0 have "registry_inv st1" by (rule deliver_preserves_registry_inv)
  then obtain st2 ok2 where d2: "deliver (ID (Player2 s)) s st1 = Some (st2, ok2)"
    using deliver_total by blast
  from Matched d1 d2 show ?thesis
    by (simp add: matchmakingProcessor_tick_def Let_def split_beta)
qed (simp_all add: matchmakingProcessor_tick_def Let_def split_beta)

lemma tick_total:
  assumes "reachable st"
  shows "matchmakingProcessor_tick env st =
           Some (fst (the (matchmakingProcessor_tick env st)),
                 snd (the (matchmakingProcessor_tick env st)))"
proof -
  from assms have "registry_inv st" by (rule reachable_registry_inv)
  then have "matchmakingProcessor_tick env st \<noteq> None" by (rule tick_never_blocks)
  then show ?thesis by auto
qed

lemma tick_db_Matched:
  assumes "tick_db env d = (d', Matched s)"
  shows "matchmaking_queue d' =
           filter (\<lambda>r. player_id r \<noteq> ID (Player1 s) \<and> player_id r \<noteq> ID (Player2 s))
             (matchmaking_queue d)"
    and "sessions d' = sessions d @
           [\<lparr>session_id = SessionID s, player1_id = ID (Player1 s),
             player2_id = ID (Player2 s), start_time = db_now env\<rparr>]"
  using assms
  by (auto simp: tick_db_def Let_def txDeletePair_def insertSession_def createSession_def
      split: sum.splits if_splits)

text \<open>The database after a tick is the one its database part has produced.\<close>

lemma tick_store:
  assumes "matchmakingProcessor_tick env st = Some (st', out)"
  shows "store st' = fst (tick_db env (store st)) \<and> out = snd (tick_db env (store st))"
  using assms
  by (auto simp: matchmakingProcessor_tick_def Let_def split_beta deliver_def chan_send_def
      split: tick_outcome.splits option.splits if_splits)

subsection \<open>The example run\<close>

lemma st_a_eval:
  "store st_a = \<lparr>matchmaking_queue = [row_a], sessions = []\<rparr>"
  "waitingChans st_a p = (if p = ''a1'' then Some 0 else None)"
  "chan_buf st_a ch = []"
  "next_chan st_a = 1"
  by (simp_all add: st_a_def eval_defs)

lemma st_ab_eval:
  "store st_ab = \<lparr>matchmaking_queue = [row_a, row_b], sessions = []\<rparr>"
  "waitingChans st_ab p = (if p = ''a1'' then Some 0 else if p = ''b1'' then Some 1 else None)"
  "chan_buf st_ab ch = []"
  "next_chan st_ab = 2"
  by (simp_all add: st_ab_def st_a_eval eval_defs)

lemma st_gap_eval:
  "store st_gap =
     \<lparr>matchmaking_queue = [],
      sessions = [\<lparr>session_id = ''session-1'', player1_id = ''a1'', player2_id = ''b1'',
                   start_time = 35\<rparr>]\<rparr>"
  "waitingChans st_gap p = (if p = ''a1'' then Some 0 else if p = ''b1'' then Some 1 else None)"
  "chan_buf st_gap ch = []"
  "next_chan st_gap = 2"
  by (simp_all add: st_gap_def st_ab_eval eval_defs)

lemma st_matched_eval:
  "store st_matched =
     \<lparr>matchmaking_queue = [],
      sessions = [\<lparr>session_id = ''session-1'', player1_id = ''a1'', player2_id = ''b1'',
                   start_time = 35\<rparr>]\<rparr>"
  "waitingChans st_matched p = None"
  "chan_buf st_matched ch = (if ch = 0 \<or> ch = 1 then [session_ab] else [])"
  "next_chan st_matched = 2"
  by (simp_all add: st_matched_def st_ab_eval eval_defs)

lemma st_again_eval:
  "store st_again =
     \<lparr>matchmaking_queue = [\<lparr>player_id = ''a1'', rating = 1000, waiting_since = 40\<rparr>,
                           \<lparr>player_id = ''c1'', rating = 900, waiting_since = 41\<rparr>],
      sessions = [\<lparr>session_id = ''session-1'', player1_id = ''a1'', player2_id = ''b1'',
                   start_time = 35\<rparr>]\<rparr>"
  "waitingChans st_again p = (if p = ''c1'' then Some 3 else if p = ''a1'' then Some 2 else None)"
  "chan_buf st_again ch = (if ch = 0 \<or> ch = 1 then [session_ab] else [])"
  "next_chan st_again = 4"
  by (simp_all add: st_again_def st_matched_eval eval_defs)

lemma st_a_reachable: "reachable st_a"
  unfolding st_a_def by (rule reachable_handler_register) (rule reachable.start)

lemma st_ab_reachable: "reachable st_ab"
  unfolding st_ab_def by (rule reachable_handler_register) (rule st_a_reachable)

lemma st_ab_env_ok: "env_ok (env_commit [row_a, row_b] 1 35 cf) (store st_ab)"
  by (simp add: st_ab_eval env_ok_def snapshotOrdered_def)

lemma st_gap_reachable: "reachable st_gap"
  unfolding st_gap_def using st_ab_reachable st_ab_env_ok by (rule reachable.tick)

lemma st_matched_reachable: "reachable st_matched"
  unfolding st_matched_def
  using st_ab_reachable st_ab_env_ok tick_total [OF st_ab_reachable] by (rule reachable_tick)

lemma st_again_reachable: "reachable st_again"
  unfolding st_again_def by (intro reachable_handler_register st_matched_reachable)

section \<open>Delivery through the registry\<close>

text \<open>
  C7. In every reachable state a delivery completes, so the matcher never blocks in it:
  with a channel registered for the player id the session is put into that channel and
  the entry is removed from the map; with none nothing changes and \<open>ok\<close> is false. A
  whole tick therefore always completes.
\<close>

theorem deliver_never_blocks:
  assumes "reachable st"
  shows "deliver playerID session st =
           (case waitingChans st playerID of
              None \<Rightarrow> Some (st, False)
            | Some ch \<Rightarrow> Some (st\<lparr>chan_buf := (chan_buf st)(ch := [session]),
                                waitingChans := (waitingChans st)(playerID := None)\<rparr>, True))
         \<and> matchmakingProcessor_tick env st \<noteq> None"
proof -
  from assms have inv: "registry_inv st" by (rule reachable_registry_inv)
  then show ?thesis by (simp add: deliver_registry_inv tick_never_blocks)
qed

theorem deliver_never_blocks_witness:
  "reachable st_ab \<and>
   map_option snd (deliver ''a1'' session_ab st_ab) = Some True \<and>
   chan_buf (fst (the (deliver ''a1'' session_ab st_ab))) 0 = [session_ab] \<and>
   waitingChans (fst (the (deliver ''a1'' session_ab st_ab))) ''a1'' = None \<and>
   deliver ''c1'' session_ab st_ab = Some (st_ab, False) \<and>
   matchmakingProcessor_tick (env_commit [row_a, row_b] 1 35 False) st_ab \<noteq> None"
  using st_ab_reachable
    deliver_never_blocks [OF st_ab_reachable, of "''a1''" session_ab
      "env_commit [row_a, row_b] 1 35 False"]
    deliver_never_blocks [OF st_ab_reachable, of "''c1''" session_ab
      "env_commit [row_a, row_b] 1 35 False"]
  by (simp add: st_ab_eval)

section \<open>Players of a session\<close>

text \<open>
  C8, as amended. In every reachable state the two player ids of every stored session
  differ, and a tick that commits a match leaves neither of its players in the queue.
\<close>

theorem session_players_distinct:
  assumes "reachable st"
  shows "(\<forall>s \<in> set (sessions (store st)). player1_id s \<noteq> player2_id s) \<and>
         (\<forall>env d s. tick_db env (store st) = (d, Matched s) \<longrightarrow>
            ID (Player1 s) \<notin> set (map player_id (matchmaking_queue d)) \<and>
            ID (Player2 s) \<notin> set (map player_id (matchmaking_queue d)))"
proof
  from assms have "sessions_inv (store st)" by (simp add: reachable_db_inv)
  then show "\<forall>s \<in> set (sessions (store st)). player1_id s \<noteq> player2_id s"
    by (simp add: sessions_inv_def)
  show "\<forall>env d s. tick_db env (store st) = (d, Matched s) \<longrightarrow>
            ID (Player1 s) \<notin> set (map player_id (matchmaking_queue d)) \<and>
            ID (Player2 s) \<notin> set (map player_id (matchmaking_queue d))"
    by (auto dest!: tick_db_Matched(1))
qed

theorem session_players_distinct_witness:
  "reachable st_matched \<and>
   sessions (store st_matched) =
     [\<lparr>session_id = ''session-1'', player1_id = ''a1'', player2_id = ''b1'', start_time = 35\<rparr>] \<and>
   list_all (\<lambda>s. player1_id s \<noteq> player2_id s) (sessions (store st_matched))"
  using st_matched_reachable session_players_distinct [OF st_matched_reachable]
  by (simp add: st_matched_eval)

text \<open>
  C8 as stated fails: \<open>a1\<close>, matched with \<open>b1\<close>, registers again and is matched with \<open>c1\<close>;
  the two stored sessions both contain \<open>a1\<close>.
\<close>

theorem player_in_two_sessions:
  "reachable st_again \<and>
   env_ok (env_commit [\<lparr>player_id = ''a1'', rating = 1000, waiting_since = 40\<rparr>,
                       \<lparr>player_id = ''c1'', rating = 900, waiting_since = 41\<rparr>] 2 42 False)
     (store st_again) \<and>
   sessions (store (fst (the (matchmakingProcessor_tick
      (env_commit [\<lparr>player_id = ''a1'', rating = 1000, waiting_since = 40\<rparr>,
                   \<lparr>player_id = ''c1'', rating = 900, waiting_since = 41\<rparr>] 2 42 False) st_again))))
   = [\<lparr>session_id = ''session-1'', player1_id = ''a1'', player2_id = ''b1'', start_time = 35\<rparr>,
      \<lparr>session_id = ''session-2'', player1_id = ''a1'', player2_id = ''c1'', start_time = 42\<rparr>]"
  using st_again_reachable by (simp add: st_again_eval eval_defs)

section \<open>Registration of the channel\<close>

text \<open>
  C6, as amended. Once the queue insert has succeeded the handler stores a new channel
  under the player id, whatever the map held for that id: the request goes on to wait on
  the new channel, and in a reachable state the new channel is not the one the map held.
\<close>

theorem register_replaces_handle:
  assumes "reachable st" and "insertWaitingPlayer fails now p (store st) = Inr d"
  shows "matchmakingHandler_register (Some p) fails now st =
           (fst (registerChan (ID p) (st\<lparr>store := d\<rparr>)), Waiting (next_chan st)) \<and>
         waitingChans (fst (matchmakingHandler_register (Some p) fails now st)) (ID p) =
           Some (next_chan st) \<and>
         waitingChans st (ID p) \<noteq> Some (next_chan st)"
proof -
  from assms(1) have "registry_inv st" by (rule reachable_registry_inv)
  then have "waitingChans st (ID p) \<noteq> Some (next_chan st)"
    unfolding registry_inv_def by (metis less_irrefl)
  with assms(2) show ?thesis
    by (simp add: matchmakingHandler_register_def registerChan_def)
qed

theorem register_replaces_handle_witness:
  "reachable st_gap \<and>
   insertWaitingPlayer False 40 player_a (store st_gap) =
     Inr \<lparr>matchmaking_queue = [\<lparr>player_id = ''a1'', rating = 1000, waiting_since = 40\<rparr>],
          sessions = [\<lparr>session_id = ''session-1'', player1_id = ''a1'', player2_id = ''b1'',
                       start_time = 35\<rparr>]\<rparr> \<and>
   snd (matchmakingHandler_register (Some player_a) False 40 st_gap) = Waiting 2 \<and>
   waitingChans (fst (matchmakingHandler_register (Some player_a) False 40 st_gap)) ''a1'' = Some 2 \<and>
   waitingChans st_gap ''a1'' = Some 0"
proof -
  have ins: "insertWaitingPlayer False 40 player_a (store st_gap) =
     Inr \<lparr>matchmaking_queue = [\<lparr>player_id = ''a1'', rating = 1000, waiting_since = 40\<rparr>],
          sessions = [\<lparr>session_id = ''session-1'', player1_id = ''a1'', player2_id = ''b1'',
                       start_time = 35\<rparr>]\<rparr>"
    by (simp add: st_gap_eval insertWaitingPlayer_def)
  from register_replaces_handle [OF st_gap_reachable ins] st_gap_reachable ins
  show ?thesis by (simp add: st_gap_eval registerChan_def)
qed

text \<open>
  C6 as stated fails. Between the commit of a tick and its deliveries the map still
  holds the channel of \<open>a1\<close> while the queue row is gone; a second request of \<open>a1\<close> is
  then registered without error and its channel replaces the first.
\<close>

theorem register_overwrites_existing_handle:
  "reachable st_gap \<and>
   waitingChans st_gap ''a1'' = Some 0 \<and>
   snd (matchmakingHandler_register (Some player_a) False 40 st_gap) = Waiting 2 \<and>
   waitingChans (fst (matchmakingHandler_register (Some player_a) False 40 st_gap)) ''a1'' = Some 2"
  using st_gap_reachable
  by (simp add: st_gap_eval matchmakingHandler_register_def insertWaitingPlayer_def
      registerChan_def)

section \<open>Duplicate registration\<close>

text \<open>
  C3, as amended. A request whose player id is already in the queue is answered at once
  with status 500 and the message of a failed registration, and the state, the map
  included, is unchanged.
\<close>

theorem duplicate_registration_rejected:
  assumes "ID p \<in> set (map player_id (matchmaking_queue (store st)))"
  shows "matchmakingHandler_register (Some p) fails now st =
           (st, Done (HttpError 500 ''Failed to register waiting player''))"
  using assms by (simp add: matchmakingHandler_register_def insertWaitingPlayer_def)

theorem duplicate_registration_rejected_witness:
  "''a1'' \<in> set (map player_id (matchmaking_queue (store st_a))) \<and>
   matchmakingHandler_register (Some \<lparr>ID = ''a1'', Rating = 1500\<rparr>) False 8 st_a =
     (st_a, Done (HttpError 500 ''Failed to register waiting player''))"
proof -
  have h: "ID \<lparr>ID = ''a1'', Rating = 1500\<rparr> \<in> set (map player_id (matchmaking_queue (store st_a)))"
    by (simp add: st_a_eval)
  from duplicate_registration_rejected [OF h, of False 8] h show ?thesis by simp
qed

text \<open>
  C3 as stated fails: the answer to a duplicate id is the same as the answer to a storage
  failure.
\<close>

theorem duplicate_response_same_as_storage_failure:
  "reachable st_a \<and>
   insertWaitingPlayer False 8 player_a (store st_a) = Inl DuplicateEntry \<and>
   insertWaitingPlayer True 8 player_a (store initial) = Inl StorageFailure \<and>
   snd (matchmakingHandler_register (Some player_a) False 8 st_a) =
   snd (matchmakingHandler_register (Some player_a) True 8 initial)"
  using st_a_reachable
  by (simp add: st_a_eval matchmakingHandler_register_def insertWaitingPlayer_def)

section \<open>The timeout case\<close>

text \<open>
  What the timeout case does to the state: the entry of the player id leaves the map,
  and the queue loses the rows of that player id if the delete succeeds; nothing else
  changes, the channels in particular.
\<close>

lemma matchmakingHandler_timeout_eq:
  "matchmakingHandler_timeout fails playerID st =
     (st\<lparr>waitingChans := (waitingChans st)(playerID := None),
         store := (if fails then store st
                   else (store st)\<lparr>matchmaking_queue :=
                          filter (\<lambda>r. player_id r \<noteq> playerID) (matchmaking_queue (store st))\<rparr>)\<rparr>,
      Done (HttpError 504 ''No opponent found within timeout''))"
  by (simp add: matchmakingHandler_timeout_def Let_def unregisterChan_def deleteWaitingPlayer_def)

text \<open>
  C5, as amended. With the timer fired and nothing in the channel the \<open>select\<close> takes the
  timeout case. The timeout case answers with status 504, having removed the entry of
  that player id, and no other, from the map and issued the delete of its queue row.
  When the delete succeeds the queue is the old queue without the rows of that id, so it
  no longer holds the player, and nothing else in the database changes; when the delete
  fails the database is as before. When the queue holds no row of the id the database is
  as before in either case.
\<close>

theorem timeout_cleanup:
  assumes "chan_buf st matchChan = []"
  shows "matchmakingHandler_select True pick_timer matchChan st = (st, TimedOut) \<and>
         matchmakingHandler_timeout fails playerID st =
           (st\<lparr>waitingChans := (waitingChans st)(playerID := None),
               store := (if fails then store st
                         else (store st)\<lparr>matchmaking_queue :=
                                filter (\<lambda>r. player_id r \<noteq> playerID)
                                  (matchmaking_queue (store st))\<rparr>)\<rparr>,
            Done (HttpError 504 ''No opponent found within timeout'')) \<and>
         (\<not> fails \<longrightarrow> playerID \<notin> set (map player_id
            (matchmaking_queue (store (fst (matchmakingHandler_timeout fails playerID st)))))) \<and>
         (fails \<longrightarrow> store (fst (matchmakingHandler_timeout fails playerID st)) = store st) \<and>
         (playerID \<notin> set (map player_id (matchmaking_queue (store st))) \<longrightarrow>
            store (fst (matchmakingHandler_timeout fails playerID st)) = store st)"
proof -
  have absent: "filter (\<lambda>r. player_id r \<noteq> playerID) (matchmaking_queue (store st)) =
                  matchmaking_queue (store st)"
    if "playerID \<notin> set (map player_id (matchmaking_queue (store st)))"
    using that by (auto simp: filter_id_conv)
  from assms have "matchmakingHandler_select True pick_timer matchChan st = (st, TimedOut)"
    by (simp add: matchmakingHandler_select_def)
  then show ?thesis
    by (auto simp: matchmakingHandler_timeout_eq absent)
qed

theorem timeout_cleanup_witness:
  "chan_buf st_a 0 = [] \<and>
   matchmakingHandler_select True False 0 st_a = (st_a, TimedOut) \<and>
   snd (matchmakingHandler_timeout False ''a1'' st_a) =
     Done (HttpError 504 ''No opponent found within timeout'') \<and>
   waitingChans (fst (matchmakingHandler_timeout False ''a1'' st_a)) ''a1'' = None \<and>
   store (fst (matchmakingHandler_timeout False ''a1'' st_a)) =
     \<lparr>matchmaking_queue = [], sessions = []\<rparr> \<and>
   store st_a = \<lparr>matchmaking_queue = [row_a], sessions = []\<rparr> \<and>
   chan_buf st_ab 1 = [] \<and>
   waitingChans (fst (matchmakingHandler_timeout False ''b1'' st_ab)) ''a1'' = Some 0 \<and>
   store (fst (matchmakingHandler_timeout False ''b1'' st_ab)) =
     \<lparr>matchmaking_queue = [row_a], sessions = []\<rparr> \<and>
   store (fst (matchmakingHandler_timeout False ''c1'' st_ab)) = store st_ab"
proof -
  have h: "chan_buf st_a 0 = []" and hb: "chan_buf st_ab 1 = []"
    by (simp_all add: st_a_eval st_ab_eval)
  from timeout_cleanup [OF h, of False False "''a1''"]
    timeout_cleanup [OF hb, of False False "''b1''"]
    timeout_cleanup [OF hb, of False False "''c1''"] h hb
  show ?thesis by (simp add: st_a_eval st_ab_eval)
qed

text \<open>
  C5 as stated fails: when the queue delete fails the timeout is still reported and the
  player's row stays in the queue.
\<close>

theorem timeout_with_failed_delete_keeps_row:
  "reachable st_a \<and>
   matchmakingHandler_select True False 0 st_a = (st_a, TimedOut) \<and>
   snd (matchmakingHandler_timeout True ''a1'' st_a) =
     Done (HttpError 504 ''No opponent found within timeout'') \<and>
   ''a1'' \<in> set (map player_id
      (matchmaking_queue (store (fst (matchmakingHandler_timeout True ''a1'' st_a)))))"
  using st_a_reachable
  by (simp add: st_a_eval matchmakingHandler_select_def matchmakingHandler_timeout_def
      unregisterChan_def deleteWaitingPlayer_def)

text \<open>
  C2, as amended. The timeout case never reads the channel. It removes the entry of the
  player id from the map, issues the delete of its queue row (the queue loses the rows of
  that id when the delete succeeds, the database is as before when it fails) and answers
  with status 504, and it leaves every channel as it was, whatever has been delivered.
  The \<open>select\<close> takes the timeout case only with the timer fired, and then changes
  nothing. A session is answered only by the \<open>select\<close> itself, when it takes the receive
  case on a channel that holds that session, which it takes out of the channel.
\<close>

theorem timeout_case_ignores_channel:
  "matchmakingHandler_timeout fails playerID st =
     (st\<lparr>waitingChans := (waitingChans st)(playerID := None),
         store := (if fails then store st
                   else (store st)\<lparr>matchmaking_queue :=
                          filter (\<lambda>r. player_id r \<noteq> playerID) (matchmaking_queue (store st))\<rparr>)\<rparr>,
      Done (HttpError 504 ''No opponent found within timeout'')) \<and>
   chan_buf (fst (matchmakingHandler_timeout fails playerID st)) = chan_buf st \<and>
   (\<forall>st'. matchmakingHandler_select timer_fired pick_timer matchChan st = (st', TimedOut) \<longrightarrow>
      timer_fired \<and> st' = st) \<and>
   (\<forall>st' r. matchmakingHandler_select timer_fired pick_timer matchChan st = (st', Done r) \<longrightarrow>
      \<not> (timer_fired \<and> pick_timer) \<and>
      (\<exists>session rest. chan_buf st matchChan = session # rest \<and> r = SessionJSON session \<and>
         st' = st\<lparr>chan_buf := (chan_buf st)(matchChan := rest)\<rparr>))"
  by (auto simp: matchmakingHandler_timeout_eq matchmakingHandler_select_def
      split: list.splits if_splits)

theorem timeout_case_ignores_channel_witness:
  "snd (matchmakingHandler_timeout False ''a1'' st_matched) =
     Done (HttpError 504 ''No opponent found within timeout'') \<and>
   chan_buf (fst (matchmakingHandler_timeout False ''a1'' st_matched)) 0 = [session_ab] \<and>
   waitingChans (fst (matchmakingHandler_timeout False ''b1'' st_ab)) ''b1'' = None \<and>
   waitingChans (fst (matchmakingHandler_timeout False ''b1'' st_ab)) ''a1'' = Some 0 \<and>
   store (fst (matchmakingHandler_timeout False ''b1'' st_ab)) =
     \<lparr>matchmaking_queue = [row_a], sessions = []\<rparr> \<and>
   snd (matchmakingHandler_select False False 0 st_matched) = Done (SessionJSON session_ab) \<and>
   chan_buf (fst (matchmakingHandler_select False False 0 st_matched)) 0 = [] \<and>
   chan_buf st_matched 0 = [session_ab]"
proof -
  have s: "matchmakingHandler_select False False 0 st_matched =
             (st_matched\<lparr>chan_buf := (chan_buf st_matched)(0 := [])\<rparr>,
              Done (SessionJSON session_ab))"
    by (simp add: matchmakingHandler_select_def st_matched_eval)
  have "snd (matchmakingHandler_timeout False ''a1'' st_matched) =
          Done (HttpError 504 ''No opponent found within timeout'') \<and>
        chan_buf (fst (matchmakingHandler_timeout False ''a1'' st_matched)) = chan_buf st_matched"
    using timeout_case_ignores_channel [of False "''a1''" st_matched] by simp
  moreover have "matchmakingHandler_timeout False ''b1'' st_ab =
     (st_ab\<lparr>waitingChans := (waitingChans st_ab)(''b1'' := None),
         store := (store st_ab)\<lparr>matchmaking_queue :=
                          filter (\<lambda>r. player_id r \<noteq> ''b1'') (matchmaking_queue (store st_ab))\<rparr>\<rparr>,
      Done (HttpError 504 ''No opponent found within timeout''))"
    using timeout_case_ignores_channel [of False "''b1''" st_ab] by simp
  ultimately show ?thesis using s by (simp add: st_matched_eval st_ab_eval)
qed

text \<open>
  C2 as stated fails. The \<open>select\<close> of \<open>a1\<close> takes the timeout case on an empty channel;
  before its cleanup the tick commits the match of \<open>a1\<close> and \<open>b1\<close> and delivers the
  session into the channel of \<open>a1\<close>; the cleanup then answers with the timeout, and the
  session stays in the channel.
\<close>

theorem delivered_session_then_timeout:
  "reachable st_ab \<and>
   matchmakingHandler_select True False 0 st_ab = (st_ab, TimedOut) \<and>
   env_ok (env_commit [row_a, row_b] 1 35 False) (store st_ab) \<and>
   matchmakingProcessor_tick (env_commit [row_a, row_b] 1 35 False) st_ab =
     Some (st_matched, Matched session_ab) \<and>
   chan_buf st_matched 0 = [session_ab] \<and>
   snd (matchmakingHandler_timeout False ''a1'' st_matched) =
     Done (HttpError 504 ''No opponent found within timeout'') \<and>
   chan_buf (fst (matchmakingHandler_timeout False ''a1'' st_matched)) 0 = [session_ab]"
proof -
  have "snd (the (matchmakingProcessor_tick (env_commit [row_a, row_b] 1 35 False) st_ab)) =
          Matched session_ab"
    by (simp add: st_ab_eval eval_defs)
  then have "matchmakingProcessor_tick (env_commit [row_a, row_b] 1 35 False) st_ab =
          Some (st_matched, Matched session_ab)"
    using tick_total [OF st_ab_reachable, of "env_commit [row_a, row_b] 1 35 False"]
    unfolding st_matched_def by metis
  with st_ab_reachable st_ab_env_ok [of False] show ?thesis
    by (simp add: st_ab_eval st_matched_eval matchmakingHandler_select_def
        matchmakingHandler_timeout_def unregisterChan_def deleteWaitingPlayer_def)
qed

section \<open>The pair of a tick\<close>

lemma tick_db_no_answer:
  "begin_fails env \<or> isl (query_answer env) \<Longrightarrow>
     fst (tick_db env d) = d \<and> outcome_session (snd (tick_db env d)) = None"
  by (auto simp: tick_db_def getWaitingPlayers_eq isl_def)

lemma tick_db_too_few:
  assumes "query_answer env = Inr rows" and "length rows < 2 \<or> rows_read env < 2"
  shows "fst (tick_db env d) = d \<and> outcome_session (snd (tick_db env d)) = None"
  using assms by (auto simp: tick_db_def getWaitingPlayers_eq)

lemma take_two:
  assumes "2 \<le> n"
  shows "take n (r1 # r2 # rest) = r1 # r2 # take (n - 2) rest"
proof -
  from assms have "n = Suc (Suc (n - 2))" by simp
  then have "take n (r1 # r2 # rest) = take (Suc (Suc (n - 2))) (r1 # r2 # rest)" by simp
  then show ?thesis by simp
qed

lemma tick_db_pair:
  assumes "\<not> begin_fails env" and "query_answer env = Inr (r1 # r2 # rest)"
    and "2 \<le> rows_read env"
  shows "outcome_session (snd (tick_db env d)) =
           Some (createSession (clock_nano env) (scanPlayer r1) (scanPlayer r2))"
  using assms
  by (simp add: tick_db_def getWaitingPlayers_eq take_two Let_def txDeletePair_def
      insertSession_def)

lemma two_or_more:
  assumes "2 \<le> length rows"
  obtains r1 r2 rest where "rows = r1 # r2 # rest"
  using assms by (cases rows; cases "tl rows") auto

text \<open>
  A result set that breaks off is taken for a complete one: with three players waiting
  and one row delivered the tick pairs nobody and sees no error.
\<close>

lemma tick_db_truncated_read:
  "tick_db \<lparr>begin_fails = False, query_answer = Inr [row_a, row_b, row_c], rows_read = 1,
            clock_nano = 1, delete_fails = False, insert_fails = False, db_now = 45,
            commit_fails = False\<rparr>
     \<lparr>matchmaking_queue = [row_a, row_b, row_c], sessions = []\<rparr> =
   (\<lparr>matchmaking_queue = [row_a, row_b, row_c], sessions = []\<rparr>, TooFew)"
  by (simp add: tick_db_def getWaitingPlayers_eq)




section \<open>The effect of one tick on the database\<close>

lemma at_most_one_row:
  assumes "distinct (map f q)"
  shows "length (filter (\<lambda>r. f r = a) q) \<le> 1"
  using assms
proof (induction q)
  case Nil
  show ?case by simp
next
  case (Cons x q)
  show ?case
  proof (cases "f x = a")
    case True
    with Cons.prems have "a \<notin> f ` set q" by simp
    then have "filter (\<lambda>r. f r = a) q = []"
      unfolding filter_empty_conv by blast
    with True show ?thesis by simp
  next
    case False
    with Cons show ?thesis by simp
  qed
qed

lemma filter_either_length:
  "length (filter (\<lambda>r. P r \<or> Q r) q) \<le> length (filter P q) + length (filter Q q)"
  by (induction q) auto

lemma delete_pair_length:
  assumes "distinct (map f q)"
  shows "length q \<le> length (filter (\<lambda>r. f r \<noteq> a \<and> f r \<noteq> b) q) + 2"
proof -
  have "length q = length (filter (\<lambda>r. f r \<noteq> a \<and> f r \<noteq> b) q) +
                   length (filter (\<lambda>r. f r = a \<or> f r = b) q)"
    using sum_length_filter_compl [of "\<lambda>r. f r \<noteq> a \<and> f r \<noteq> b" q] by simp
  moreover have "length (filter (\<lambda>r. f r = a \<or> f r = b) q)
                 \<le> length (filter (\<lambda>r. f r = a) q) + length (filter (\<lambda>r. f r = b) q)"
    by (rule filter_either_length)
  moreover have "length (filter (\<lambda>r. f r = a) q) \<le> 1" "length (filter (\<lambda>r. f r = b) q) \<le> 1"
    using assms by (rule at_most_one_row)+
  ultimately show ?thesis by linarith
qed

text \<open>
  C10. With one row per player id in the queue, a tick adds at most one session row, and
  the queue after it is the queue before it with at most two rows taken out: all other
  rows stay, in their order, however many are waiting.
\<close>

theorem tick_at_most_one_pair:
  assumes "distinct (map player_id (matchmaking_queue d))"
  shows "(sessions (fst (tick_db env d)) = sessions d \<or>
          (\<exists>row. sessions (fst (tick_db env d)) = sessions d @ [row])) \<and>
         subseq (matchmaking_queue (fst (tick_db env d))) (matchmaking_queue d) \<and>
         length (matchmaking_queue d) \<le> length (matchmaking_queue (fst (tick_db env d))) + 2"
  using delete_pair_length [OF assms]
  by (auto simp: tick_db_def Let_def txDeletePair_def insertSession_def getWaitingPlayers_eq
      split: sum.splits)

theorem tick_at_most_one_pair_witness:
  "distinct (map player_id [row_a, row_b, row_c, row_d]) \<and>
   sessions (fst (tick_db (env_commit [row_a, row_b, row_c, row_d] 1 45 False)
      \<lparr>matchmaking_queue = [row_a, row_b, row_c, row_d], sessions = []\<rparr>)) =
     [\<lparr>session_id = ''session-1'', player1_id = ''a1'', player2_id = ''b1'', start_time = 45\<rparr>] \<and>
   matchmaking_queue (fst (tick_db (env_commit [row_a, row_b, row_c, row_d] 1 45 False)
      \<lparr>matchmaking_queue = [row_a, row_b, row_c, row_d], sessions = []\<rparr>)) = [row_c, row_d] \<and>
   subseq [row_c, row_d] [row_a, row_b, row_c, row_d]"
proof -
  have d: "distinct (map player_id (matchmaking_queue
             \<lparr>matchmaking_queue = [row_a, row_b, row_c, row_d], sessions = []\<rparr>))"
    by simp
  have q: "matchmaking_queue (fst (tick_db (env_commit [row_a, row_b, row_c, row_d] 1 45 False)
      \<lparr>matchmaking_queue = [row_a, row_b, row_c, row_d], sessions = []\<rparr>)) = [row_c, row_d]"
    and s: "sessions (fst (tick_db (env_commit [row_a, row_b, row_c, row_d] 1 45 False)
      \<lparr>matchmaking_queue = [row_a, row_b, row_c, row_d], sessions = []\<rparr>)) =
     [\<lparr>session_id = ''session-1'', player1_id = ''a1'', player2_id = ''b1'', start_time = 45\<rparr>]"
    by (simp_all add: tick_db_def getWaitingPlayers_eq Let_def txDeletePair_def insertSession_def
        createSession_def sprintf_d_def decimal.simps scanPlayer_def)
  from tick_at_most_one_pair [OF d, of "env_commit [row_a, row_b, row_c, row_d] 1 45 False"]
  have "subseq [row_c, row_d] [row_a, row_b, row_c, row_d]"
    unfolding q by simp
  with q s show ?thesis by simp
qed

section \<open>Ratings and pairing\<close>

lemma zip_map_eq:
  assumes "map f xs = map g ys" and "(x, y) \<in> set (zip xs ys)"
  shows "f x = g y"
proof -
  from assms(2) obtain i where i: "i < length xs" "i < length ys" "xs ! i = x" "ys ! i = y"
    by (auto simp: set_zip)
  then have "f x = map f xs ! i" "g y = map g ys ! i" by simp_all
  with assms(1) show ?thesis by simp
qed

lemma map_eq_zipI:
  assumes "length xs = length ys" and "\<And>x y. (x, y) \<in> set (zip xs ys) \<Longrightarrow> f x = g y"
  shows "map f xs = map g ys"
proof (rule nth_equalityI)
  show "length (map f xs) = length (map g ys)" using assms(1) by simp
next
  fix i assume "i < length (map f xs)"
  with assms(1) have i: "i < length xs" "i < length ys" by simp_all
  then have "(xs ! i, ys ! i) \<in> set (zip xs ys)" by (auto simp: set_zip)
  then have "f (xs ! i) = g (ys ! i)" by (rule assms(2))
  with i show "map f xs ! i = map g ys ! i" by simp
qed

lemma same_arrivals_times:
  assumes "same_arrivals q q'"
  shows "map waiting_since q = map waiting_since q'" and "map player_id q = map player_id q'"
proof -
  have "map waiting_since q = map snd (map arrival q)" by (simp add: arrival_def comp_def)
  also have "\<dots> = map snd (map arrival q')" using assms by (simp add: same_arrivals_def)
  also have "\<dots> = map waiting_since q'" by (simp add: arrival_def comp_def)
  finally show "map waiting_since q = map waiting_since q'" .
  have "map player_id q = map fst (map arrival q)" by (simp add: arrival_def comp_def)
  also have "\<dots> = map fst (map arrival q')" using assms by (simp add: same_arrivals_def)
  also have "\<dots> = map player_id q'" by (simp add: arrival_def comp_def)
  finally show "map player_id q = map player_id q'" .
qed

lemma snapshot_rerated:
  assumes same: "same_arrivals q q'" and snap: "snapshotOrdered q rows"
  shows "\<exists>rows'. snapshotOrdered q' rows' \<and> same_arrivals rows rows'"
proof -
  from same have len: "length q = length q'"
    unfolding same_arrivals_def by (rule map_eq_imp_length_eq)
  from snap have ms: "mset rows = mset q" by (simp add: snapshotOrdered_def)
  from ex_mset_zip_left [OF len ms] obtain rows'
    where len': "length rows' = length rows"
      and z: "mset (zip rows rows') = mset (zip q q')"
    by blast
  have "mset rows' = mset (map snd (zip rows rows'))" using len' by simp
  also have "\<dots> = image_mset snd (mset (zip q q'))" using z by (metis mset_map)
  also have "\<dots> = mset (map snd (zip q q'))" by simp
  also have "\<dots> = mset q'" using len by simp
  finally have ms': "mset rows' = mset q'" .
  from z have sz: "set (zip rows rows') = set (zip q q')" by (rule mset_eq_setD)
  have arr: "map arrival rows = map arrival rows'"
  proof (rule map_eq_zipI)
    show "length rows = length rows'" using len' by simp
  next
    fix x y assume "(x, y) \<in> set (zip rows rows')"
    with sz have "(x, y) \<in> set (zip q q')" by simp
    with same show "arrival x = arrival y"
      unfolding same_arrivals_def by (rule zip_map_eq)
  qed
  then have sa: "same_arrivals rows rows'" by (simp add: same_arrivals_def)
  from snap have "sorted (map waiting_since rows)" by (simp add: snapshotOrdered_def)
  with same_arrivals_times(1) [OF sa] have "sorted (map waiting_since rows')" by simp
  with ms' sa show ?thesis by (auto simp: snapshotOrdered_def)
qed

lemma paired_ids_cong:
  assumes "begin_fails env' = begin_fails env" and "rows_read env' = rows_read env"
    and "query_answer env = Inr rows" and "query_answer env' = Inr rows'"
    and ids: "map player_id rows = map player_id rows'"
  shows "paired_ids (snd (tick_db env' d')) = paired_ids (snd (tick_db env d))"
proof (cases "begin_fails env")
  case True
  with assms(1) show ?thesis
    using tick_db_no_answer [of env d] tick_db_no_answer [of env' d']
    by (simp add: paired_ids_def)
next
  case nb: False
  from ids have len: "length rows = length rows'" by (rule map_eq_imp_length_eq)
  show ?thesis
  proof (cases "2 \<le> length rows \<and> 2 \<le> rows_read env")
    case False
    then have "length rows < 2 \<or> rows_read env < 2" by auto
    with len assms(2,3,4) show ?thesis
      using tick_db_too_few [of env rows d] tick_db_too_few [of env' rows' d']
      by (simp add: paired_ids_def)
  next
    case True
    then obtain r1 r2 rest where s: "rows = r1 # r2 # rest" by (metis two_or_more)
    from True len obtain r1' r2' rest' where s': "rows' = r1' # r2' # rest'"
      by (metis two_or_more)
    from ids s s' have "player_id r1 = player_id r1'" "player_id r2 = player_id r2'" by simp_all
    with nb True assms(1-4) s s' show ?thesis
      by (simp add: paired_ids_def tick_db_pair createSession_def scanPlayer_def)
  qed
qed

lemma snapshot_ids_unique:
  assumes same: "same_arrivals q q'"
    and snap: "snapshotOrdered q rows" and snap': "snapshotOrdered q' rows'"
    and dist: "distinct (map waiting_since q)"
  shows "map player_id rows = map player_id rows'"
proof -
  from snap snap' have ms: "mset rows = mset q" "mset rows' = mset q'"
    and srt: "sorted (map waiting_since rows)" "sorted (map waiting_since rows')"
    by (simp_all add: snapshotOrdered_def)
  from same have "map arrival q = map arrival q'" by (simp add: same_arrivals_def)
  then have "mset (map arrival rows) = mset (map arrival rows')"
    using ms by (metis mset_map)
  then have sets: "set (map arrival rows) = set (map arrival rows')" by (rule mset_eq_setD)
  have wsq: "mset (map waiting_since rows) = mset (map waiting_since q)"
    using ms(1) by simp
  have wsq': "mset (map waiting_since rows') = mset (map waiting_since q)"
    using ms(2) same_arrivals_times(1) [OF same] by simp
  from wsq dist have d1: "distinct (map waiting_since rows)"
    by (metis mset_eq_imp_distinct_iff)
  from wsq' dist have d2: "distinct (map waiting_since rows')"
    by (metis mset_eq_imp_distinct_iff)
  from wsq wsq' have "set (map waiting_since rows) = set (map waiting_since rows')"
    by (metis mset_eq_setD)
  with srt d1 d2 have times: "map waiting_since rows = map waiting_since rows'"
    by (metis sorted_distinct_set_unique)
  then have len: "length rows = length rows'" by (rule map_eq_imp_length_eq)
  show ?thesis
  proof (rule nth_equalityI)
    show "length (map player_id rows) = length (map player_id rows')" using len by simp
  next
    fix i assume "i < length (map player_id rows)"
    with len have i: "i < length rows" "i < length rows'" by simp_all
    then have "arrival (rows ! i) \<in> set (map arrival rows)" by simp
    with sets obtain j where j: "j < length rows'" "arrival (rows ! i) = arrival (rows' ! j)"
      by (auto simp: in_set_conv_nth)
    then have "waiting_since (rows ! i) = waiting_since (rows' ! j)" by (simp add: arrival_def)
    moreover from times i have "waiting_since (rows ! i) = waiting_since (rows' ! i)"
      by (metis nth_map)
    ultimately have "map waiting_since rows' ! j = map waiting_since rows' ! i"
      using i j by simp
    with d2 i j have "j = i" using nth_eq_iff_index_eq [of "map waiting_since rows'" j i] by simp
    with j have "player_id (rows ! i) = player_id (rows' ! i)" by (simp add: arrival_def)
    with i show "map player_id rows ! i = map player_id rows' ! i" by simp
  qed
qed

text \<open>
  C9, as amended. The pair of ids a tick selects is decided by the ids of the rows of the
  result set, in their order: two ticks with the same failures whose result sets list
  the same ids in the same order select the same pair, whatever the ratings. Let two
  databases agree on the arrivals in their queues, the ratings being arbitrary. Every
  pair of ids that a tick can select on the first, a tick with the same failures can
  select on the second; and when no two enqueue times are equal, any two ticks with the
  same failures select the same pair of ids on the two databases.
\<close>

theorem pairing_ignores_ratings:
  assumes same: "same_arrivals (matchmaking_queue d) (matchmaking_queue d')"
    and ok: "env_ok env d"
  shows "(\<forall>env' rows rows'. begin_fails env' = begin_fails env \<and>
            rows_read env' = rows_read env \<and>
            query_answer env = Inr rows \<and> query_answer env' = Inr rows' \<and>
            map player_id rows = map player_id rows' \<longrightarrow>
            paired_ids (snd (tick_db env' d')) = paired_ids (snd (tick_db env d))) \<and>
         (\<exists>env'. env_ok env' d' \<and> begin_fails env' = begin_fails env \<and>
            isl (query_answer env') = isl (query_answer env) \<and>
            rows_read env' = rows_read env \<and>
            paired_ids (snd (tick_db env' d')) = paired_ids (snd (tick_db env d))) \<and>
         (\<forall>env'. env_ok env' d' \<and> begin_fails env' = begin_fails env \<and>
            isl (query_answer env') = isl (query_answer env) \<and>
            rows_read env' = rows_read env \<and>
            distinct (map waiting_since (matchmaking_queue d)) \<longrightarrow>
            paired_ids (snd (tick_db env' d')) = paired_ids (snd (tick_db env d)))"
proof -
  have cong: "\<forall>env' rows rows'. begin_fails env' = begin_fails env \<and>
            rows_read env' = rows_read env \<and>
            query_answer env = Inr rows \<and> query_answer env' = Inr rows' \<and>
            map player_id rows = map player_id rows' \<longrightarrow>
            paired_ids (snd (tick_db env' d')) = paired_ids (snd (tick_db env d))"
    using paired_ids_cong by blast
  show ?thesis
  proof (cases "query_answer env")
    case (Inl e)
    have "env_ok env d'" using Inl by (simp add: env_ok_def)
    moreover have "\<And>env'. isl (query_answer env') = isl (query_answer env) \<Longrightarrow>
        paired_ids (snd (tick_db env' d')) = paired_ids (snd (tick_db env d))"
      using Inl tick_db_no_answer by (simp add: paired_ids_def)
    ultimately show ?thesis using cong by blast
  next
    case (Inr rows)
    with ok have snap: "snapshotOrdered (matchmaking_queue d) rows" by (simp add: env_ok_def)
    from snapshot_rerated [OF same snap] obtain rows'
      where snap': "snapshotOrdered (matchmaking_queue d') rows'"
        and sa: "same_arrivals rows rows'"
      by blast
    let ?env' = "env\<lparr>query_answer := Inr rows'\<rparr>"
    have "env_ok ?env' d'" using snap' by (simp add: env_ok_def)
    moreover have "paired_ids (snd (tick_db ?env' d')) = paired_ids (snd (tick_db env d))"
      using Inr same_arrivals_times(2) [OF sa]
        paired_ids_cong [where env = env and env' = ?env' and rows = rows and rows' = rows']
      by simp
    ultimately have first: "\<exists>env'. env_ok env' d' \<and> begin_fails env' = begin_fails env \<and>
              isl (query_answer env') = isl (query_answer env) \<and>
              rows_read env' = rows_read env \<and>
              paired_ids (snd (tick_db env' d')) = paired_ids (snd (tick_db env d))"
      using Inr by (intro exI [of _ ?env']) simp
    have second: "paired_ids (snd (tick_db env' d')) = paired_ids (snd (tick_db env d))"
      if h: "env_ok env' d'" "begin_fails env' = begin_fails env"
        "isl (query_answer env') = isl (query_answer env)"
        "rows_read env' = rows_read env"
        "distinct (map waiting_since (matchmaking_queue d))" for env'
    proof -
      from h(3) Inr obtain rows2 where r2: "query_answer env' = Inr rows2"
        by (cases "query_answer env'") auto
      with h(1) have "snapshotOrdered (matchmaking_queue d') rows2" by (simp add: env_ok_def)
      with same snap h(5) have "map player_id rows = map player_id rows2"
        by (metis snapshot_ids_unique)
      with h(2,4) Inr r2 show ?thesis
        using paired_ids_cong [where env = env and env' = env' and rows = rows and rows' = rows2]
        by simp
    qed
    from cong first second show ?thesis by blast
  qed
qed

theorem pairing_ignores_ratings_witness:
  "same_arrivals [tie_a 1000, tie_b 1200, tie_c 900] [tie_a 2000, tie_b 50, tie_c 900] \<and>
   env_ok (env_commit [tie_a 1000, tie_b 1200, tie_c 900] 1 8 False)
     \<lparr>matchmaking_queue = [tie_a 1000, tie_b 1200, tie_c 900], sessions = []\<rparr> \<and>
   paired_ids (snd (tick_db (env_commit [tie_a 1000, tie_b 1200, tie_c 900] 1 8 False)
     \<lparr>matchmaking_queue = [tie_a 1000, tie_b 1200, tie_c 900], sessions = []\<rparr>)) =
     Some (''a1'', ''b1'') \<and>
   paired_ids (snd (tick_db (env_commit [tie_a 2000, tie_b 50, tie_c 900] 1 8 False)
     \<lparr>matchmaking_queue = [tie_a 2000, tie_b 50, tie_c 900], sessions = []\<rparr>)) =
     Some (''a1'', ''b1'') \<and>
   (\<exists>env'. env_ok env' \<lparr>matchmaking_queue = [tie_a 2000, tie_b 50, tie_c 900], sessions = []\<rparr> \<and>
      paired_ids (snd (tick_db env'
        \<lparr>matchmaking_queue = [tie_a 2000, tie_b 50, tie_c 900], sessions = []\<rparr>)) =
        Some (''a1'', ''b1'')) \<and>
   same_arrivals [row_a, row_b, row_c]
     [\<lparr>player_id = ''a1'', rating = 2000, waiting_since = 5\<rparr>,
      \<lparr>player_id = ''b1'', rating = 50, waiting_since = 34\<rparr>, row_c] \<and>
   distinct (map waiting_since [row_a, row_b, row_c]) \<and>
   paired_ids (snd (tick_db
     (env_commit [\<lparr>player_id = ''a1'', rating = 2000, waiting_since = 5\<rparr>,
                  \<lparr>player_id = ''b1'', rating = 50, waiting_since = 34\<rparr>, row_c] 1 45 False)
     \<lparr>matchmaking_queue = [\<lparr>player_id = ''a1'', rating = 2000, waiting_since = 5\<rparr>,
                           \<lparr>player_id = ''b1'', rating = 50, waiting_since = 34\<rparr>, row_c],
      sessions = []\<rparr>)) = Some (''a1'', ''b1'')"
proof -
  let ?t = "[tie_a 1000, tie_b 1200, tie_c 900]"
  let ?t' = "[tie_a 2000, tie_b 50, tie_c 900]"
  let ?dt = "\<lparr>matchmaking_queue = ?t, sessions = []\<rparr>"
  let ?dt' = "\<lparr>matchmaking_queue = ?t', sessions = []\<rparr>"
  let ?q = "[row_a, row_b, row_c]"
  let ?q' = "[\<lparr>player_id = ''a1'', rating = 2000, waiting_since = 5\<rparr>,
              \<lparr>player_id = ''b1'', rating = 50, waiting_since = 34\<rparr>, row_c]"
  let ?d = "\<lparr>matchmaking_queue = ?q, sessions = []\<rparr>"
  let ?d' = "\<lparr>matchmaking_queue = ?q', sessions = []\<rparr>"
  have tsame: "same_arrivals (matchmaking_queue ?dt) (matchmaking_queue ?dt')"
    by (simp add: same_arrivals_def arrival_def)
  have tok: "env_ok (env_commit ?t 1 8 False) ?dt"
    by (simp add: env_ok_def snapshotOrdered_def)
  have tv: "paired_ids (snd (tick_db (env_commit ?t 1 8 False) ?dt)) = Some (''a1'', ''b1'')"
    by (simp add: paired_ids_def tick_db_def getWaitingPlayers_eq Let_def txDeletePair_def
        insertSession_def createSession_def scanPlayer_def)
  note tie = pairing_ignores_ratings [OF tsame tok]
  from tie have "paired_ids (snd (tick_db (env_commit ?t' 1 8 False) ?dt')) =
        paired_ids (snd (tick_db (env_commit ?t 1 8 False) ?dt))"
    by simp
  with tv have t1: "paired_ids (snd (tick_db (env_commit ?t' 1 8 False) ?dt')) =
        Some (''a1'', ''b1'')"
    by simp
  from tie have "\<exists>env'. env_ok env' ?dt' \<and>
      paired_ids (snd (tick_db env' ?dt')) =
        paired_ids (snd (tick_db (env_commit ?t 1 8 False) ?dt))"
    by blast
  with tv have t2: "\<exists>env'. env_ok env' ?dt' \<and>
      paired_ids (snd (tick_db env' ?dt')) = Some (''a1'', ''b1'')"
    by simp
  have same: "same_arrivals (matchmaking_queue ?d) (matchmaking_queue ?d')"
    by (simp add: same_arrivals_def arrival_def)
  have ok: "env_ok (env_commit ?q 1 45 False) ?d"
    by (simp add: env_ok_def snapshotOrdered_def)
  have ok': "env_ok (env_commit ?q' 1 45 False) ?d'"
    by (simp add: env_ok_def snapshotOrdered_def)
  have v: "paired_ids (snd (tick_db (env_commit ?q 1 45 False) ?d)) = Some (''a1'', ''b1'')"
    by (simp add: paired_ids_def tick_db_def getWaitingPlayers_eq Let_def txDeletePair_def
        insertSession_def createSession_def scanPlayer_def)
  from pairing_ignores_ratings [OF same ok] ok'
  have "paired_ids (snd (tick_db (env_commit ?q' 1 45 False) ?d')) =
        paired_ids (snd (tick_db (env_commit ?q 1 45 False) ?d))"
    by simp
  with v have d1: "paired_ids (snd (tick_db (env_commit ?q' 1 45 False) ?d')) =
        Some (''a1'', ''b1'')"
    by simp
  from tsame tok tv t1 t2 same d1 show ?thesis by simp
qed

text \<open>
  C9 as stated fails. Three players with the same enqueue time wait in two queues that
  differ in the ratings only. The server may return the three rows in any order: a tick
  on the first queue selects \<open>a1\<close> and \<open>b1\<close>, a tick on the second selects \<open>a1\<close> and \<open>c1\<close>.
\<close>

theorem tied_arrivals_different_pairs:
  "same_arrivals [tie_a 1000, tie_b 1200, tie_c 900] [tie_a 2000, tie_b 50, tie_c 900] \<and>
   env_ok (env_commit [tie_a 1000, tie_b 1200, tie_c 900] 1 8 False)
     \<lparr>matchmaking_queue = [tie_a 1000, tie_b 1200, tie_c 900], sessions = []\<rparr> \<and>
   env_ok (env_commit [tie_a 2000, tie_c 900, tie_b 50] 1 8 False)
     \<lparr>matchmaking_queue = [tie_a 2000, tie_b 50, tie_c 900], sessions = []\<rparr> \<and>
   paired_ids (snd (tick_db (env_commit [tie_a 1000, tie_b 1200, tie_c 900] 1 8 False)
     \<lparr>matchmaking_queue = [tie_a 1000, tie_b 1200, tie_c 900], sessions = []\<rparr>)) =
     Some (''a1'', ''b1'') \<and>
   paired_ids (snd (tick_db (env_commit [tie_a 2000, tie_c 900, tie_b 50] 1 8 False)
     \<lparr>matchmaking_queue = [tie_a 2000, tie_b 50, tie_c 900], sessions = []\<rparr>)) =
     Some (''a1'', ''c1'')"
  by (simp add: same_arrivals_def arrival_def env_ok_def snapshotOrdered_def paired_ids_def
      tick_db_def getWaitingPlayers_eq Let_def txDeletePair_def insertSession_def
      createSession_def scanPlayer_def)

end
